theory Spec2Isabelle
  imports Main "HOL-Library.Word" "HOL-Library.Multiset"
begin

section \<open>Schema resolution over the network (worker/schema.go)\<close>

text \<open>
  A shallow embedding of \<^verbatim>\<open>worker/schema.go\<close>: the local projector
  (\<^verbatim>\<open>getSchema\<close>, \<^verbatim>\<open>populateSchema\<close>), the request partitioner
  (\<^verbatim>\<open>addToSchemaMap\<close>), the scatter-gather coordinator
  (\<^verbatim>\<open>getSchemaOverNetwork\<close>, \<^verbatim>\<open>GetSchemaOverNetwork\<close>) and the remote entry
  point (\<^verbatim>\<open>grpcWorker.Schema\<close>).

  The process-wide singletons \<^verbatim>\<open>schema.State()\<close> and \<^verbatim>\<open>groups()\<close> are read-only
  here; they are passed as explicit snapshots. Go's map iteration order and the
  order in which goroutines deliver their results are inputs of the model (a
  schedule), so every interleaving of the source is one argument value.
\<close>

subsection \<open>Data model\<close>

text \<open>Group ids are \<^verbatim>\<open>uint32\<close>.\<close>

type_synonym gid = "32 word"

text \<open>\<^verbatim>\<open>pb.SchemaRequest\<close>: a nil slice and an empty slice are both \<open>[]\<close>
  (the source only takes \<^verbatim>\<open>len\<close> of them, ranges over them and appends).\<close>

record SchemaRequest =
  GroupId :: gid
  Predicates :: "string list"
  Fields :: "string list"

text \<open>\<^verbatim>\<open>api.SchemaNode\<close>.\<close>

record SchemaNode =
  Predicate :: string
  Type :: string
  Index :: bool
  Tokenizer :: "string list"
  Reverse :: bool
  Count :: bool
  List :: bool
  Upsert :: bool
  Lang :: bool

text \<open>\<^verbatim>\<open>pb.SchemaResult\<close>.\<close>

record SchemaResult =
  Schema :: "SchemaNode list"

text \<open>The errors this file returns or passes on. \<^verbatim>\<open>errUnservedTablet\<close> and
  \<^verbatim>\<open>conn.ErrNoConnection\<close> are package-level values; the error built by
  \<^verbatim>\<open>x.Errorf("This server doesn't serve group id: %v", s.GroupId)\<close> keeps its
  argument; errors of the health check, of the context and of the transport are
  opaque and keep their message.\<close>

datatype error =
    errUnservedTablet
  | ErrNoConnection
  | ErrWrongGroup gid
  | ErrHealth string
  | ErrContext string
  | ErrRemote string

text \<open>\<^verbatim>\<open>types.TypeID\<close> is declared outside this file; only \<^verbatim>\<open>typ.Name()\<close> is
  used, so the identifier is a number and \<open>TypeName\<close> is a parameter.\<close>

type_synonym TypeID = nat

text \<open>The snapshot of \<^verbatim>\<open>schema.State()\<close>. \<^verbatim>\<open>TypeOf\<close> returns
  \<^verbatim>\<open>(types.TypeID, error)\<close>; the error value is never read, so the pair is an
  option (\<open>None\<close>: \<^verbatim>\<open>err != nil\<close>).\<close>

record State =
  StatePredicates :: "string list"
  TypeOf :: "string \<Rightarrow> TypeID option"
  TypeName :: "TypeID \<Rightarrow> string"
  IsIndexed :: "string \<Rightarrow> bool"
  TokenizerNames :: "string \<Rightarrow> string list"
  IsReversed :: "string \<Rightarrow> bool"
  HasCount :: "string \<Rightarrow> bool"
  IsList :: "string \<Rightarrow> bool"
  HasUpsert :: "string \<Rightarrow> bool"
  HasLang :: "string \<Rightarrow> bool"

text \<open>Connections are opaque; \<^verbatim>\<open>Leader\<close> returns a pool or nil.\<close>

type_synonym conn = nat

text \<open>The snapshot of \<^verbatim>\<open>groups()\<close>.\<close>

record groupi =
  ServesGroup :: "gid \<Rightarrow> bool"
  ServesTablet :: "string \<Rightarrow> bool"
  BelongsTo :: "string \<Rightarrow> gid"
  KnownGroups :: "gid list"
  Leader :: "gid \<Rightarrow> conn option"

text \<open>\<^verbatim>\<open>resultErr\<close>: both fields are nullable in the source.\<close>

record resultErr =
  result :: "SchemaResult option"
  err :: "error option"

text \<open>Everything outside this file that a call depends on. \<open>HealthCheck\<close> is
  the value of \<^verbatim>\<open>x.HealthCheck()\<close>.

  Modelled from the spec: \<open>RemoteSchema\<close> stands for the generated client call
  \<^verbatim>\<open>pb.NewWorkerClient(conn).Schema(ctx, s)\<close>, which is not in this file; the spec
  gives the transport as "a typed call that returns a result or an error", so it
  is a function into a sum.\<close>

record env =
  state :: State
  groups :: groupi
  HealthCheck :: "error option"
  RemoteSchema :: "conn \<Rightarrow> SchemaRequest \<Rightarrow> error + SchemaResult"

subsection \<open>Local projector\<close>

text \<open>The zero value of \<^verbatim>\<open>api.SchemaNode\<close> (\<^verbatim>\<open>var schemaNode api.SchemaNode\<close>).\<close>

definition zeroSchemaNode :: SchemaNode where
  "zeroSchemaNode =
     \<lparr>Predicate = [], Type = [], Index = False, Tokenizer = [], Reverse = False,
      Count = False, List = False, Upsert = False, Lang = False\<rparr>"

text \<open>The body of the \<^verbatim>\<open>switch field\<close> of \<^verbatim>\<open>populateSchema\<close>, cases in the
  source's order; the default case leaves the node as it is.\<close>

definition setField :: "State \<Rightarrow> string \<Rightarrow> TypeID \<Rightarrow> SchemaNode \<Rightarrow> string \<Rightarrow> SchemaNode" where
  "setField st attr typ schemaNode field =
     (if field = ''type'' then schemaNode\<lparr>Type := TypeName st typ\<rparr>
      else if field = ''index'' then schemaNode\<lparr>Index := IsIndexed st attr\<rparr>
      else if field = ''tokenizer'' then
        (if IsIndexed st attr then schemaNode\<lparr>Tokenizer := TokenizerNames st attr\<rparr>
         else schemaNode)
      else if field = ''reverse'' then schemaNode\<lparr>Reverse := IsReversed st attr\<rparr>
      else if field = ''count'' then schemaNode\<lparr>Count := HasCount st attr\<rparr>
      else if field = ''list'' then schemaNode\<lparr>List := IsList st attr\<rparr>
      else if field = ''upsert'' then schemaNode\<lparr>Upsert := HasUpsert st attr\<rparr>
      else if field = ''lang'' then schemaNode\<lparr>Lang := HasLang st attr\<rparr>
      else schemaNode)"

text \<open>The loop \<^verbatim>\<open>for _, field := range fields\<close> of \<^verbatim>\<open>populateSchema\<close>.\<close>

fun populateFields :: "State \<Rightarrow> string \<Rightarrow> TypeID \<Rightarrow> SchemaNode \<Rightarrow> string list \<Rightarrow> SchemaNode" where
  "populateFields st attr typ schemaNode [] = schemaNode"
| "populateFields st attr typ schemaNode (field # flds) =
     populateFields st attr typ (setField st attr typ schemaNode field) flds"

text \<open>\<^verbatim>\<open>populateSchema\<close>: \<open>None\<close> is the nil pointer returned when the schema
  is not defined.\<close>

definition populateSchema :: "State \<Rightarrow> string \<Rightarrow> string list \<Rightarrow> SchemaNode option" where
  "populateSchema st attr flds =
     (case TypeOf st attr of
        None \<Rightarrow> None
      | Some typ \<Rightarrow>
          Some (populateFields st attr typ (zeroSchemaNode\<lparr>Predicate := attr\<rparr>) flds))"

text \<open>The default field list of \<^verbatim>\<open>getSchema\<close>.\<close>

definition defaultFields :: "string list" where
  "defaultFields =
     [''type'', ''index'', ''tokenizer'', ''reverse'', ''count'', ''list'', ''upsert'', ''lang'']"

text \<open>The loop \<^verbatim>\<open>for _, attr := range predicates\<close> of \<^verbatim>\<open>getSchema\<close>, with the
  accumulated \<^verbatim>\<open>result.Schema\<close>.\<close>

fun getSchemaLoop :: "env \<Rightarrow> string list \<Rightarrow> string list \<Rightarrow> SchemaNode list \<Rightarrow> SchemaNode list" where
  "getSchemaLoop e flds [] acc = acc"
| "getSchemaLoop e flds (attr # predicates) acc =
     (if \<not> ServesTablet (groups e) attr then getSchemaLoop e flds predicates acc
      else (case populateSchema (state e) attr flds of
              None \<Rightarrow> getSchemaLoop e flds predicates acc
            | Some schemaNode \<Rightarrow> getSchemaLoop e flds predicates (acc @ [schemaNode])))"

text \<open>\<^verbatim>\<open>getSchema\<close>: the returned pointer is never nil and the error always is.\<close>

definition getSchema :: "env \<Rightarrow> SchemaRequest \<Rightarrow> SchemaResult \<times> error option" where
  "getSchema e s =
     (let predicates = (if length (Predicates s) > 0 then Predicates s
                        else StatePredicates (state e));
          flds = (if length (Fields s) > 0 then Fields s else defaultFields)
      in (\<lparr>Schema = getSchemaLoop e flds predicates []\<rparr>, None))"

subsection \<open>Request partitioner\<close>

text \<open>\<^verbatim>\<open>map[uint32]*pb.SchemaRequest\<close>. A missing key and a key bound to nil both read
  as nil in the source, and the map built by \<^verbatim>\<open>GetSchemaOverNetwork\<close> never holds
  nil, so both are \<open>None\<close>. An entry is updated through its pointer; here the map
  is updated at the key.\<close>

type_synonym schemaMap = "gid \<rightharpoonup> SchemaRequest"

text \<open>The first loop of \<^verbatim>\<open>addToSchemaMap\<close>, over \<^verbatim>\<open>schema.Predicates\<close>;
  \<open>flds\<close> is \<^verbatim>\<open>schema.Fields\<close>.\<close>

fun addPredicates :: "groupi \<Rightarrow> string list \<Rightarrow> schemaMap \<Rightarrow> string list \<Rightarrow> schemaMap" where
  "addPredicates g flds schemaMap [] = schemaMap"
| "addPredicates g flds schemaMap (attr # predicates) =
     (let gid = BelongsTo g attr;
          s = (case schemaMap gid of
                 None \<Rightarrow> \<lparr>GroupId = gid, Predicates = [], Fields = flds\<rparr>
               | Some s \<Rightarrow> s)
      in addPredicates g flds (schemaMap(gid \<mapsto> s\<lparr>Predicates := Predicates s @ [attr]\<rparr>))
           predicates)"

text \<open>The second loop of \<^verbatim>\<open>addToSchemaMap\<close>, over \<^verbatim>\<open>groups().KnownGroups()\<close>.\<close>

fun addKnownGroups :: "string list \<Rightarrow> schemaMap \<Rightarrow> gid list \<Rightarrow> schemaMap" where
  "addKnownGroups flds schemaMap [] = schemaMap"
| "addKnownGroups flds schemaMap (gid # gids) =
     (if gid = 0 then addKnownGroups flds schemaMap gids
      else (case schemaMap gid of
              None \<Rightarrow>
                addKnownGroups flds
                  (schemaMap(gid \<mapsto> \<lparr>GroupId = gid, Predicates = [], Fields = flds\<rparr>)) gids
            | Some s \<Rightarrow> addKnownGroups flds schemaMap gids))"

text \<open>\<^verbatim>\<open>addToSchemaMap\<close>, returning the map it mutates.\<close>

definition addToSchemaMap :: "groupi \<Rightarrow> schemaMap \<Rightarrow> SchemaRequest \<Rightarrow> schemaMap" where
  "addToSchemaMap g schemaMap schema =
     (let m = addPredicates g (Fields schema) schemaMap (Predicates schema)
      in if length (Predicates schema) > 0 then m
         else addKnownGroups (Fields schema) m (KnownGroups g))"

subsection \<open>Scatter-gather coordinator\<close>

text \<open>\<^verbatim>\<open>getSchemaOverNetwork\<close>: the value the task sends on the channel.\<close>

definition getSchemaOverNetwork :: "env \<Rightarrow> gid \<Rightarrow> SchemaRequest \<Rightarrow> resultErr" where
  "getSchemaOverNetwork e gid s =
     (if ServesGroup (groups e) gid then
        (case getSchema e s of (schema, er) \<Rightarrow> \<lparr>result = Some schema, err = er\<rparr>)
      else (case Leader (groups e) gid of
              None \<Rightarrow> \<lparr>result = None, err = Some ErrNoConnection\<rparr>
            | Some pl \<Rightarrow>
                (case RemoteSchema e pl s of
                   Inl er \<Rightarrow> \<lparr>result = None, err = Some er\<rparr>
                 | Inr schema \<Rightarrow> \<lparr>result = Some schema, err = None\<rparr>)))"

text \<open>What one \<^verbatim>\<open>select\<close> of the aggregation loop picks: the result sent by
  the task of a group, or \<^verbatim>\<open>ctx.Done()\<close> with the value of \<^verbatim>\<open>ctx.Err()\<close>.\<close>

datatype selected = Deliver gid | Done error

text \<open>The choices the Go runtime makes during one call: the order in which
  \<^verbatim>\<open>range schemaMap\<close> yields the keys, and what each \<^verbatim>\<open>select\<close> picks.\<close>

record schedule =
  rangeOrder :: "gid list"
  selects :: "selected list"

text \<open>How a call ends: it returns its pair, it panics on a nil
  \<^verbatim>\<open>r.result\<close>, or the \<^verbatim>\<open>select\<close> waits for ever.\<close>

datatype outcome = Returns "SchemaNode list" "error option" | Panics | Blocks

text \<open>The dispatch loop \<^verbatim>\<open>for gid, s := range schemaMap\<close> over the keys in the
  order the schedule gives them (in a run of the source, every key of the map
  once): the groups whose task \<^verbatim>\<open>go getSchemaOverNetwork(ctx, gid, s, results)\<close>
  was started so far, and whether the loop left through the \<^verbatim>\<open>gid == 0\<close>
  return.\<close>

fun dispatch :: "gid list \<Rightarrow> gid list \<Rightarrow> gid list \<times> bool" where
  "dispatch [] started = (started, False)"
| "dispatch (gid # gids) started =
     (if gid = 0 then (started, True) else dispatch gids (started @ [gid]))"

text \<open>The aggregation loop \<^verbatim>\<open>for i := 0; i < len(schemaMap); i++\<close> with \<open>n\<close>
  iterations left and \<open>schemaNodes\<close> accumulated. The task of group \<open>gid\<close>
  sends \<^verbatim>\<open>getSchemaOverNetwork\<close> of \<open>gid\<close> and its map entry. When the schedule
  has nothing left to pick, or names a group without map entry (no task was started
  for it), nothing becomes ready and the \<^verbatim>\<open>select\<close> waits.\<close>

fun gather :: "env \<Rightarrow> schemaMap \<Rightarrow> nat \<Rightarrow> selected list \<Rightarrow> SchemaNode list \<Rightarrow> outcome" where
  "gather e schemaMap 0 sel schemaNodes = Returns schemaNodes None"
| "gather e schemaMap (Suc n) [] schemaNodes = Blocks"
| "gather e schemaMap (Suc n) (Done er # sel) schemaNodes = Returns [] (Some er)"
| "gather e schemaMap (Suc n) (Deliver gid # sel) schemaNodes =
     (case schemaMap gid of
        None \<Rightarrow> Blocks
      | Some s \<Rightarrow>
          (let r = getSchemaOverNetwork e gid s
           in case err r of
                Some er \<Rightarrow> Returns [] (Some er)
              | None \<Rightarrow>
                  (case result r of
                     None \<Rightarrow> Panics
                   | Some res \<Rightarrow> gather e schemaMap n sel (schemaNodes @ Schema res))))"

text \<open>\<^verbatim>\<open>GetSchemaOverNetwork\<close>: the groups whose lookup task was started, and
  how the call ends. \<^verbatim>\<open>schemaNodes\<close> is still nil at the \<^verbatim>\<open>gid == 0\<close> return.\<close>

definition GetSchemaOverNetwork :: "env \<Rightarrow> schedule \<Rightarrow> SchemaRequest \<Rightarrow> gid list \<times> outcome" where
  "GetSchemaOverNetwork e sch schema =
     (case HealthCheck e of
        Some er \<Rightarrow> ([], Returns [] (Some er))
      | None \<Rightarrow>
          (let schemaMap = addToSchemaMap (groups e) Map.empty schema
           in case dispatch (rangeOrder sch) [] of
                (started, True) \<Rightarrow> (started, Returns [] (Some errUnservedTablet))
              | (started, False) \<Rightarrow>
                  (started, gather e schemaMap (card (dom schemaMap)) (selects sch) [])))"

subsection \<open>Remote entry point\<close>

text \<open>\<^verbatim>\<open>var emptySchemaResult pb.SchemaResult\<close>.\<close>

definition emptySchemaResult :: SchemaResult where
  "emptySchemaResult = \<lparr>Schema = []\<rparr>"

text \<open>\<^verbatim>\<open>(w *grpcWorker) Schema\<close>; \<open>ctxErr\<close> is the value of \<^verbatim>\<open>ctx.Err()\<close>.\<close>

definition grpcWorker_Schema :: "env \<Rightarrow> error option \<Rightarrow> SchemaRequest \<Rightarrow> SchemaResult \<times> error option" where
  "grpcWorker_Schema e ctxErr s =
     (if ctxErr \<noteq> None then (emptySchemaResult, ctxErr)
      else if \<not> ServesGroup (groups e) (GroupId s) then
        (emptySchemaResult, Some (ErrWrongGroup (GroupId s)))
      else getSchema e s)"

subsection \<open>A small cluster for concrete runs\<close>

text \<open>Two defined predicates: \<open>name\<close> (string, indexed, group 1) and \<open>age\<close>
  (int, not indexed, group 2). This node serves group 1; the leader of group 2 is
  reached over connection 7. \<open>ghost\<close> is owned by group 1 and has no schema;
  every other predicate has no owning group.\<close>

definition exState :: State where
  "exState =
     \<lparr>StatePredicates = [''name'', ''age''],
      TypeOf = (\<lambda>p. if p = ''name'' then Some 1 else if p = ''age'' then Some 2 else None),
      TypeName = (\<lambda>t. if t = 1 then ''string'' else ''int''),
      IsIndexed = (\<lambda>p. p = ''name''),
      TokenizerNames = (\<lambda>p. if p = ''name'' then [''term''] else [''stale'']),
      IsReversed = (\<lambda>p. False),
      HasCount = (\<lambda>p. p = ''age''),
      IsList = (\<lambda>p. False),
      HasUpsert = (\<lambda>p. False),
      HasLang = (\<lambda>p. p = ''name'')\<rparr>"

definition exGroups :: groupi where
  "exGroups =
     \<lparr>ServesGroup = (\<lambda>gid. gid = 1),
      ServesTablet = (\<lambda>p. p = ''name'' \<or> p = ''ghost''),
      BelongsTo = (\<lambda>p. if p = ''name'' \<or> p = ''ghost'' then 1 else if p = ''age'' then 2 else 0),
      KnownGroups = [0, 1, 2],
      Leader = (\<lambda>gid. if gid = 2 then Some 7 else None)\<rparr>"

definition exEnv :: env where
  "exEnv =
     \<lparr>state = exState, groups = exGroups, HealthCheck = None,
      RemoteSchema = (\<lambda>pl s. if pl = 7
         then Inr \<lparr>Schema = map (\<lambda>p. zeroSchemaNode\<lparr>Predicate := p, Type := ''int''\<rparr>) (Predicates s)\<rparr>
         else Inl (ErrRemote ''unreachable''))\<rparr>"

text \<open>Requests: the two defined predicates; one predicate named twice; no
  predicate named; and one predicate without owning group.\<close>

definition exReq :: SchemaRequest where
  "exReq = \<lparr>GroupId = 0, Predicates = [''name'', ''age''], Fields = [''type'', ''index'']\<rparr>"

definition exReqDup :: SchemaRequest where
  "exReqDup = \<lparr>GroupId = 0, Predicates = [''name'', ''age'', ''name''], Fields = [''type'', ''index'']\<rparr>"

definition exReqAll :: SchemaRequest where
  "exReqAll = \<lparr>GroupId = 0, Predicates = [], Fields = [''type'']\<rparr>"

definition exReqStray :: SchemaRequest where
  "exReqStray = \<lparr>GroupId = 0, Predicates = [''name'', ''stray''], Fields = [''type'']\<rparr>"

section \<open>Properties\<close>

subsection \<open>Local projector\<close>

lemma populateFields_Predicate:
  "Predicate (populateFields st attr typ n flds) = Predicate n"
  by (induction flds arbitrary: n) (simp_all add: setField_def)

lemma populateFields_Tokenizer:
  "Tokenizer (populateFields st attr typ n flds) =
     (if IsIndexed st attr \<and> ''tokenizer'' \<in> set flds then TokenizerNames st attr
      else Tokenizer n)"
proof (induction flds arbitrary: n)
  case Nil
  then show ?case by simp
next
  case (Cons f flds)
  have "Tokenizer (setField st attr typ n f) =
          (if IsIndexed st attr \<and> f = ''tokenizer'' then TokenizerNames st attr
           else Tokenizer n)"
    by (simp add: setField_def)
  then show ?case
    using Cons.IH [of "setField st attr typ n f"] by auto
qed

text \<open>Claim C6. When \<open>tokenizer\<close> is among the requested fields, the node returned by
  \<^verbatim>\<open>populateSchema\<close> carries the catalog's tokenizer names if the catalog reports
  the predicate as indexed, and an empty tokenizer list if it does not: a non-empty
  list only for an indexed predicate.\<close>

theorem populateSchema_Tokenizer:
  assumes "''tokenizer'' \<in> set flds" and "populateSchema st attr flds = Some node"
  shows "Tokenizer node = (if IsIndexed st attr then TokenizerNames st attr else [])"
  using assms
  by (auto simp: populateSchema_def populateFields_Tokenizer zeroSchemaNode_def
      split: option.splits)


theorem populateSchema_Tokenizer_witness:
  "''tokenizer'' \<in> set [''type'', ''tokenizer'']
   \<and> \<not> IsIndexed exState ''age''
   \<and> TokenizerNames exState ''age'' = [''stale'']
   \<and> populateSchema exState ''age'' [''type'', ''tokenizer'']
       = Some (zeroSchemaNode\<lparr>Predicate := ''age'', Type := ''int''\<rparr>)
   \<and> Tokenizer (zeroSchemaNode\<lparr>Predicate := ''age'', Type := ''int''\<rparr>) = []
   \<and> IsIndexed exState ''name''
   \<and> populateSchema exState ''name'' [''type'', ''tokenizer'']
       = Some (zeroSchemaNode\<lparr>Predicate := ''name'', Type := ''string'',
                               Tokenizer := [''term'']\<rparr>)"
proof -
  have m: "''tokenizer'' \<in> set [''type'', ''tokenizer'']" by simp
  have p: "populateSchema exState ''age'' [''type'', ''tokenizer'']
       = Some (zeroSchemaNode\<lparr>Predicate := ''age'', Type := ''int''\<rparr>)"
    by (simp add: populateSchema_def exState_def setField_def)
  have q: "populateSchema exState ''name'' [''type'', ''tokenizer'']
       = Some (zeroSchemaNode\<lparr>Predicate := ''name'', Type := ''string'',
                               Tokenizer := [''term'']\<rparr>)"
    by (simp add: populateSchema_def exState_def setField_def)
  show ?thesis
    using m p q populateSchema_Tokenizer [OF m p] populateSchema_Tokenizer [OF m q]
    by (simp add: exState_def)
qed

text \<open>Claim C9. Every node returned by \<^verbatim>\<open>populateSchema\<close> names the queried
  predicate, whatever the field list; and a predicate with a defined type always
  yields a node, also when no requested field name is recognised.\<close>

theorem populateSchema_Predicate:
  "(populateSchema st attr flds = Some node \<longrightarrow> Predicate node = attr)
   \<and> (TypeOf st attr \<noteq> None \<longrightarrow> populateSchema st attr flds \<noteq> None)"
  by (auto simp: populateSchema_def populateFields_Predicate split: option.splits)

theorem populateSchema_Predicate_witness:
  "populateSchema exState ''age'' [''bogus'', ''colour'']
       = Some (zeroSchemaNode\<lparr>Predicate := ''age''\<rparr>)
   \<and> Predicate (zeroSchemaNode\<lparr>Predicate := ''age''\<rparr>) = ''age''
   \<and> TypeOf exState ''age'' \<noteq> None
   \<and> populateSchema exState ''age'' [''bogus'', ''colour''] \<noteq> None"
  using populateSchema_Predicate [of exState "''age''" "[''bogus'', ''colour'']"
      "zeroSchemaNode\<lparr>Predicate := ''age''\<rparr>"]
  by (simp add: populateSchema_def exState_def setField_def)

lemma getSchemaLoop_Predicates:
  "n \<in> set (getSchemaLoop e flds ps acc) \<Longrightarrow>
     n \<in> set acc \<or> (TypeOf (state e) (Predicate n) \<noteq> None \<and> Predicate n \<in> set ps)"
proof (induction ps arbitrary: acc)
  case Nil
  then show ?case by simp
next
  case (Cons p ps)
  show ?case
  proof (cases "ServesTablet (groups e) p")
    case False
    with Cons show ?thesis by fastforce
  next
    case True
    show ?thesis
    proof (cases "populateSchema (state e) p flds")
      case None
      with True Cons show ?thesis by fastforce
    next
      case (Some node)
      then have "Predicate node = p" "TypeOf (state e) p \<noteq> None"
        by (auto simp: populateSchema_def populateFields_Predicate split: option.splits)
      moreover from Cons.prems True Some
      have "n \<in> set (getSchemaLoop e flds ps (acc @ [node]))" by simp
      from Cons.IH [OF this]
      have "n \<in> set acc \<or> n = node \<or> (TypeOf (state e) (Predicate n) \<noteq> None \<and> Predicate n \<in> set ps)"
        by auto
      ultimately show ?thesis by auto
    qed
  qed
qed

text \<open>Claim C7. A predicate whose type the catalog does not define gets no node from
  \<^verbatim>\<open>populateSchema\<close>, no node of the list returned by \<^verbatim>\<open>getSchema\<close> carries its
  name, and \<^verbatim>\<open>getSchema\<close> returns no error.\<close>

theorem getSchema_omits_undefined:
  assumes "TypeOf (state e) attr = None"
  shows "populateSchema (state e) attr flds = None
         \<and> attr \<notin> Predicate ` set (Schema (fst (getSchema e s)))
         \<and> snd (getSchema e s) = None"
proof -
  have "populateSchema (state e) attr flds = None"
    using assms by (simp add: populateSchema_def)
  moreover have "attr \<notin> Predicate ` set (Schema (fst (getSchema e s)))"
  proof
    assume "attr \<in> Predicate ` set (Schema (fst (getSchema e s)))"
    then obtain n where "n \<in> set (Schema (fst (getSchema e s)))" "Predicate n = attr"
      by auto
    then show False
      using assms getSchemaLoop_Predicates [of n e _ _ "[]"]
      by (auto simp: getSchema_def Let_def split: if_splits)
  qed
  moreover have "snd (getSchema e s) = None"
    by (simp add: getSchema_def Let_def)
  ultimately show ?thesis by simp
qed

theorem getSchema_omits_undefined_witness:
  "TypeOf (state exEnv) ''ghost'' = None
   \<and> populateSchema (state exEnv) ''ghost'' [''type''] = None
   \<and> getSchema exEnv \<lparr>GroupId = 1, Predicates = [''ghost'', ''name''], Fields = [''type'']\<rparr>
       = (\<lparr>Schema = [zeroSchemaNode\<lparr>Predicate := ''name'', Type := ''string''\<rparr>]\<rparr>, None)"
proof -
  have t: "TypeOf (state exEnv) ''ghost'' = None"
    by (simp add: exEnv_def exState_def)
  show ?thesis
    using t getSchema_omits_undefined [OF t, of "[''type'']"
        "\<lparr>GroupId = 1, Predicates = [''ghost'', ''name''], Fields = [''type'']\<rparr>"]
    by (simp add: getSchema_def populateSchema_def setField_def exEnv_def exState_def
        exGroups_def)
qed

text \<open>Claim C5. \<^verbatim>\<open>getSchema\<close> with an empty field list returns what it returns with
  the explicit list type, index, tokenizer, reverse, count, list, upsert, lang.\<close>

theorem getSchema_default_fields:
  "getSchema e (s\<lparr>Fields := []\<rparr>) =
   getSchema e (s\<lparr>Fields := [''type'', ''index'', ''tokenizer'', ''reverse'', ''count'',
                               ''list'', ''upsert'', ''lang'']\<rparr>)"
  by (simp add: getSchema_def defaultFields_def)

subsection \<open>Remote entry point\<close>

text \<open>Claim C8. \<^verbatim>\<open>grpcWorker.Schema\<close>: with a context error it returns that error and
  the empty result, whatever the catalog and the topology hold; otherwise, when
  this node does not serve the addressed group, the wrong-group error and the empty
  result; otherwise exactly what \<^verbatim>\<open>getSchema\<close> returns for the sub-request.\<close>

theorem grpcWorker_Schema_cases:
  "(ctxErr = Some er \<longrightarrow> grpcWorker_Schema e ctxErr s = (\<lparr>Schema = []\<rparr>, Some er))
   \<and> (ctxErr = None \<and> \<not> ServesGroup (groups e) (GroupId s) \<longrightarrow>
        grpcWorker_Schema e ctxErr s = (\<lparr>Schema = []\<rparr>, Some (ErrWrongGroup (GroupId s))))
   \<and> (ctxErr = None \<and> ServesGroup (groups e) (GroupId s) \<longrightarrow>
        grpcWorker_Schema e ctxErr s = getSchema e s)"
  by (simp add: grpcWorker_Schema_def emptySchemaResult_def)


theorem grpcWorker_Schema_cases_witness:
  "grpcWorker_Schema exEnv (Some (ErrContext ''context canceled''))
       \<lparr>GroupId = 1, Predicates = [''name''], Fields = [''type'', ''index'']\<rparr>
     = (\<lparr>Schema = []\<rparr>, Some (ErrContext ''context canceled''))
   \<and> \<not> ServesGroup (groups exEnv) 2
   \<and> grpcWorker_Schema exEnv None
       \<lparr>GroupId = 2, Predicates = [''name''], Fields = [''type'', ''index'']\<rparr>
     = (\<lparr>Schema = []\<rparr>, Some (ErrWrongGroup 2))
   \<and> ServesGroup (groups exEnv) 1
   \<and> grpcWorker_Schema exEnv None
       \<lparr>GroupId = 1, Predicates = [''name''], Fields = [''type'', ''index'']\<rparr>
     = (\<lparr>Schema = [zeroSchemaNode\<lparr>Predicate := ''name'', Type := ''string'', Index := True\<rparr>]\<rparr>,
        None)"
  using grpcWorker_Schema_cases [of "Some (ErrContext ''context canceled'')"
      "ErrContext ''context canceled''" exEnv
      "\<lparr>GroupId = 1, Predicates = [''name''], Fields = [''type'', ''index'']\<rparr>"]
    grpcWorker_Schema_cases [of None er exEnv
      "\<lparr>GroupId = 2, Predicates = [''name''], Fields = [''type'', ''index'']\<rparr>"]
    grpcWorker_Schema_cases [of None er exEnv
      "\<lparr>GroupId = 1, Predicates = [''name''], Fields = [''type'', ''index'']\<rparr>"]
  by (simp add: getSchema_def populateSchema_def setField_def exEnv_def exState_def
      exGroups_def)

subsection \<open>Request partitioner\<close>


lemma addPredicates_lookup:
  "addPredicates g flds m ps gid =
     (if gid \<in> BelongsTo g ` set ps then
        Some (let s = (case m gid of
                         None \<Rightarrow> \<lparr>GroupId = gid, Predicates = [], Fields = flds\<rparr>
                       | Some s \<Rightarrow> s)
              in s\<lparr>Predicates := Predicates s @ filter (\<lambda>p. BelongsTo g p = gid) ps\<rparr>)
      else m gid)"
proof (induction ps arbitrary: m)
  case Nil
  then show ?case by simp
next
  case (Cons p ps)
  show ?case
  proof (cases "BelongsTo g p = gid")
    case True
    have "gid \<notin> BelongsTo g ` set ps \<Longrightarrow> filter (\<lambda>p. BelongsTo g p = gid) ps = []"
      by (auto simp: filter_empty_conv)
    with True show ?thesis
      by (simp add: Cons.IH Let_def split: option.splits)
  next
    case False
    then show ?thesis
      by (simp add: Cons.IH Let_def)
  qed
qed

lemma addPredicates_empty:
  "addPredicates g flds Map.empty ps gid =
     (if gid \<in> BelongsTo g ` set ps then
        Some \<lparr>GroupId = gid, Predicates = filter (\<lambda>p. BelongsTo g p = gid) ps, Fields = flds\<rparr>
      else None)"
  by (simp add: addPredicates_lookup)

lemma addKnownGroups_lookup:
  "addKnownGroups flds m gids gid =
     (case m gid of
        Some s \<Rightarrow> Some s
      | None \<Rightarrow> if gid \<in> set gids \<and> gid \<noteq> 0
                then Some \<lparr>GroupId = gid, Predicates = [], Fields = flds\<rparr> else None)"
proof (induction gids arbitrary: m)
  case Nil
  then show ?case by (simp split: option.splits)
next
  case (Cons k gids)
  then show ?case by (auto split: option.splits)
qed

lemma addToSchemaMap_named:
  "Predicates schema \<noteq> [] \<Longrightarrow>
   addToSchemaMap g Map.empty schema gid =
     (if gid \<in> BelongsTo g ` set (Predicates schema) then
        Some \<lparr>GroupId = gid,
              Predicates = filter (\<lambda>p. BelongsTo g p = gid) (Predicates schema),
              Fields = Fields schema\<rparr>
      else None)"
  by (simp add: addToSchemaMap_def addPredicates_empty)

lemma addToSchemaMap_all:
  "Predicates schema = [] \<Longrightarrow>
   addToSchemaMap g Map.empty schema gid =
     (if gid \<in> set (KnownGroups g) \<and> gid \<noteq> 0 then
        Some \<lparr>GroupId = gid, Predicates = [], Fields = Fields schema\<rparr>
      else None)"
  by (simp add: addToSchemaMap_def addKnownGroups_lookup)

text \<open>Claim C3. For a request that names predicates, partitioning into a fresh map puts
  every named predicate into the sub-request of the group \<^verbatim>\<open>BelongsTo\<close> reports for
  it and into no other; the predicates of all sub-requests together are the named
  predicates; and every sub-request carries the request's field list.\<close>

theorem addToSchemaMap_partition:
  assumes "Predicates schema \<noteq> []"
  shows "(\<forall>p \<in> set (Predicates schema).
            \<exists>s. addToSchemaMap g Map.empty schema (BelongsTo g p) = Some s
                \<and> p \<in> set (Predicates s))
         \<and> (\<forall>gid s p. addToSchemaMap g Map.empty schema gid = Some s \<and> p \<in> set (Predicates s)
               \<longrightarrow> gid = BelongsTo g p)
         \<and> (\<Union>s \<in> ran (addToSchemaMap g Map.empty schema). set (Predicates s))
             = set (Predicates schema)
         \<and> (\<forall>s \<in> ran (addToSchemaMap g Map.empty schema). Fields s = Fields schema)"
proof -
  let ?m = "addToSchemaMap g Map.empty schema"
  note lk = addToSchemaMap_named [OF assms, of g]
  have a: "\<forall>p \<in> set (Predicates schema).
            \<exists>s. ?m (BelongsTo g p) = Some s \<and> p \<in> set (Predicates s)"
    by (simp add: lk)
  have b: "\<forall>gid s p. ?m gid = Some s \<and> p \<in> set (Predicates s) \<longrightarrow> gid = BelongsTo g p"
    by (auto simp: lk split: if_splits)
  have c: "(\<Union>s \<in> ran ?m. set (Predicates s)) = set (Predicates schema)"
  proof
    show "(\<Union>s \<in> ran ?m. set (Predicates s)) \<subseteq> set (Predicates schema)"
      by (auto simp: ran_def lk split: if_splits)
    show "set (Predicates schema) \<subseteq> (\<Union>s \<in> ran ?m. set (Predicates s))"
    proof
      fix p assume "p \<in> set (Predicates schema)"
      with a obtain s where "?m (BelongsTo g p) = Some s" "p \<in> set (Predicates s)"
        by blast
      then show "p \<in> (\<Union>s \<in> ran ?m. set (Predicates s))"
        by (auto simp: ran_def)
    qed
  qed
  have d: "\<forall>s \<in> ran ?m. Fields s = Fields schema"
    by (auto simp: ran_def lk split: if_splits)
  from a b c d show ?thesis by blast
qed

text \<open>Claim C4. For a request that names no predicate, the fresh map gets exactly the
  known group ids other than 0 as keys, each bound to a sub-request with that group
  id, no predicates and the request's field list.\<close>

theorem addToSchemaMap_known_groups:
  assumes "Predicates schema = []"
  shows "dom (addToSchemaMap g Map.empty schema) = set (KnownGroups g) - {0}
         \<and> (\<forall>gid \<in> set (KnownGroups g) - {0}.
               addToSchemaMap g Map.empty schema gid
                 = Some \<lparr>GroupId = gid, Predicates = [], Fields = Fields schema\<rparr>)"
  by (auto simp: addToSchemaMap_all [OF assms] dom_def)

lemma sum_mset_filter_key:
  assumes "finite A" and "f ` set xs \<subseteq> A"
  shows "(\<Sum>k \<in> A. mset (filter (\<lambda>x. f x = k) xs)) = mset xs"
  using assms(2)
proof (induction xs)
  case Nil
  then show ?case by simp
next
  case (Cons x xs)
  then have IH: "(\<Sum>k \<in> A. mset (filter (\<lambda>x. f x = k) xs)) = mset xs" and xA: "f x \<in> A"
    by auto
  have "(\<Sum>k \<in> A. mset (filter (\<lambda>y. f y = k) (x # xs)))
        = (\<Sum>k \<in> A. (if f x = k then {#x#} else {#}) + mset (filter (\<lambda>y. f y = k) xs))"
    by (rule sum.cong) auto
  also have "\<dots> = (\<Sum>k \<in> A. (if f x = k then {#x#} else {#})) + mset xs"
    by (simp only: sum.distrib IH)
  also have "(\<Sum>k \<in> A. (if f x = k then {#x#} else {#})) = {#x#}"
    using assms(1) xA by (simp add: sum.delta')
  finally show ?case by simp
qed

text \<open>Claim C10. The partitioner keeps duplicates: the predicate lists of all
  sub-requests add up, as multisets, to the request's predicate list, and a named
  predicate occurs in the sub-request of its group as often as in the request.\<close>

theorem addToSchemaMap_keeps_duplicates:
  "(\<Sum>gid \<in> dom (addToSchemaMap g Map.empty schema).
      case addToSchemaMap g Map.empty schema gid of
        None \<Rightarrow> {#} | Some s \<Rightarrow> mset (Predicates s))
     = mset (Predicates schema)
   \<and> (\<forall>p \<in> set (Predicates schema).
        \<exists>s. addToSchemaMap g Map.empty schema (BelongsTo g p) = Some s
            \<and> count_list (Predicates s) p = count_list (Predicates schema) p)"
proof (cases "Predicates schema = []")
  case True
  have "(\<Sum>gid \<in> dom (addToSchemaMap g Map.empty schema).
          case addToSchemaMap g Map.empty schema gid of
            None \<Rightarrow> {#} | Some s \<Rightarrow> mset (Predicates s)) = {#}"
    by (rule sum.neutral) (simp add: addToSchemaMap_all [OF True])
  with True show ?thesis by simp
next
  case False
  let ?m = "addToSchemaMap g Map.empty schema"
  note lk = addToSchemaMap_named [OF False, of g]
  have dm: "dom ?m = BelongsTo g ` set (Predicates schema)"
    by (auto simp: dom_def lk)
  have "(\<Sum>gid \<in> dom ?m. case ?m gid of None \<Rightarrow> {#} | Some s \<Rightarrow> mset (Predicates s))
        = (\<Sum>gid \<in> BelongsTo g ` set (Predicates schema).
             mset (filter (\<lambda>p. BelongsTo g p = gid) (Predicates schema)))"
    unfolding dm by (rule sum.cong) (simp_all add: lk)
  also have "\<dots> = mset (Predicates schema)"
    by (rule sum_mset_filter_key) simp_all
  finally have a: "(\<Sum>gid \<in> dom ?m. case ?m gid of None \<Rightarrow> {#} | Some s \<Rightarrow> mset (Predicates s))
        = mset (Predicates schema)" .
  have cf: "count_list (filter P xs) x = (if P x then count_list xs x else 0)" for P xs and x :: string
    by (induction xs) auto
  have b: "\<forall>p \<in> set (Predicates schema).
        \<exists>s. ?m (BelongsTo g p) = Some s
            \<and> count_list (Predicates s) p = count_list (Predicates schema) p"
    by (simp add: lk cf)
  from a b show ?thesis by simp
qed

lemma exReq_map:
  "addToSchemaMap exGroups Map.empty exReq =
     [1 \<mapsto> \<lparr>GroupId = 1, Predicates = [''name''], Fields = [''type'', ''index'']\<rparr>,
      2 \<mapsto> \<lparr>GroupId = 2, Predicates = [''age''], Fields = [''type'', ''index'']\<rparr>]"
  by (simp add: addToSchemaMap_def exReq_def exGroups_def Let_def)

lemma exReqDup_map:
  "addToSchemaMap exGroups Map.empty exReqDup =
     [1 \<mapsto> \<lparr>GroupId = 1, Predicates = [''name'', ''name''], Fields = [''type'', ''index'']\<rparr>,
      2 \<mapsto> \<lparr>GroupId = 2, Predicates = [''age''], Fields = [''type'', ''index'']\<rparr>]"
  by (simp add: addToSchemaMap_def exReqDup_def exGroups_def Let_def fun_upd_twist)

lemma exReqAll_map:
  "addToSchemaMap exGroups Map.empty exReqAll =
     [1 \<mapsto> \<lparr>GroupId = 1, Predicates = [], Fields = [''type'']\<rparr>,
      2 \<mapsto> \<lparr>GroupId = 2, Predicates = [], Fields = [''type'']\<rparr>]"
  by (simp add: addToSchemaMap_def exReqAll_def exGroups_def Let_def)


theorem addToSchemaMap_partition_witness:
  "Predicates exReq \<noteq> []
   \<and> BelongsTo exGroups ''name'' = 1 \<and> BelongsTo exGroups ''age'' = 2
   \<and> addToSchemaMap exGroups Map.empty exReq 1
       = Some \<lparr>GroupId = 1, Predicates = [''name''], Fields = [''type'', ''index'']\<rparr>
   \<and> addToSchemaMap exGroups Map.empty exReq 2
       = Some \<lparr>GroupId = 2, Predicates = [''age''], Fields = [''type'', ''index'']\<rparr>
   \<and> (\<Union>s \<in> ran (addToSchemaMap exGroups Map.empty exReq). set (Predicates s))
       = {''name'', ''age''}"
proof -
  have ne: "Predicates exReq \<noteq> []" by (simp add: exReq_def)
  have ps: "set (Predicates exReq) = {''name'', ''age''}" by (auto simp: exReq_def)
  show ?thesis
    using ne addToSchemaMap_partition [OF ne, of exGroups]
    by (simp add: exReq_map ps) (simp add: exGroups_def)
qed

theorem addToSchemaMap_known_groups_witness:
  "Predicates exReqAll = [] \<and> KnownGroups exGroups = [0, 1, 2]
   \<and> dom (addToSchemaMap exGroups Map.empty exReqAll) = {1, 2}
   \<and> addToSchemaMap exGroups Map.empty exReqAll 1
       = Some \<lparr>GroupId = 1, Predicates = [], Fields = [''type'']\<rparr>
   \<and> addToSchemaMap exGroups Map.empty exReqAll 2
       = Some \<lparr>GroupId = 2, Predicates = [], Fields = [''type'']\<rparr>
   \<and> addToSchemaMap exGroups Map.empty exReqAll 0 = None"
proof -
  have em: "Predicates exReqAll = []" by (simp add: exReqAll_def)
  show ?thesis
    using em addToSchemaMap_known_groups [OF em, of exGroups]
    by (simp add: exReqAll_map) (auto simp: exGroups_def)
qed

theorem addToSchemaMap_keeps_duplicates_witness:
  "Predicates exReqDup = [''name'', ''age'', ''name'']
   \<and> addToSchemaMap exGroups Map.empty exReqDup (BelongsTo exGroups ''name'')
       = Some \<lparr>GroupId = 1, Predicates = [''name'', ''name''], Fields = [''type'', ''index'']\<rparr>
   \<and> count_list [''name'', ''name''] ''name'' = 2
   \<and> count_list (Predicates exReqDup) ''name'' = 2
   \<and> (\<Sum>gid \<in> dom (addToSchemaMap exGroups Map.empty exReqDup).
        case addToSchemaMap exGroups Map.empty exReqDup gid of
          None \<Rightarrow> {#} | Some s \<Rightarrow> mset (Predicates s))
       = {#''name'', ''age'', ''name''#}"
  using addToSchemaMap_keeps_duplicates [of exGroups exReqDup]
  by (simp add: exReqDup_map) (simp add: exReqDup_def exGroups_def)

subsection \<open>Scatter-gather coordinator\<close>

lemma dispatch_unrouted:
  "0 \<in> set gids \<Longrightarrow>
   dispatch gids started = (started @ takeWhile (\<lambda>gid. gid \<noteq> 0) gids, True)"
  by (induction gids arbitrary: started) auto

text \<open>Claim C1, as the code has it. After a passed health check, when the partition map
  has an entry for group id 0, \<^verbatim>\<open>GetSchemaOverNetwork\<close> returns
  \<^verbatim>\<open>errUnservedTablet\<close> and no node, in whatever order the map is ranged over;
  lookup tasks have been started for exactly the groups the range yields before
  group 0, so for none when group 0 comes first and never for group 0.\<close>

theorem GetSchemaOverNetwork_unrouted:
  assumes "HealthCheck e = None"
    and "addToSchemaMap (groups e) Map.empty schema 0 \<noteq> None"
    and "set (rangeOrder sch) = dom (addToSchemaMap (groups e) Map.empty schema)"
  shows "GetSchemaOverNetwork e sch schema =
           (takeWhile (\<lambda>gid. gid \<noteq> 0) (rangeOrder sch), Returns [] (Some errUnservedTablet))"
proof -
  from assms(2,3) have "0 \<in> set (rangeOrder sch)" by auto
  from dispatch_unrouted [OF this, of "[]"] assms(1) show ?thesis
    by (simp add: GetSchemaOverNetwork_def)
qed

lemma exReqStray_map:
  "addToSchemaMap exGroups Map.empty exReqStray =
     [1 \<mapsto> \<lparr>GroupId = 1, Predicates = [''name''], Fields = [''type'']\<rparr>,
      0 \<mapsto> \<lparr>GroupId = 0, Predicates = [''stray''], Fields = [''type'']\<rparr>]"
  by (simp add: addToSchemaMap_def exReqStray_def exGroups_def Let_def)

text \<open>Group 0 first: no task is started.\<close>

theorem GetSchemaOverNetwork_unrouted_witness:
  "HealthCheck exEnv = None
   \<and> addToSchemaMap (groups exEnv) Map.empty exReqStray 0 \<noteq> None
   \<and> set [0, 1] = dom (addToSchemaMap (groups exEnv) Map.empty exReqStray)
   \<and> GetSchemaOverNetwork exEnv \<lparr>rangeOrder = [0, 1], selects = []\<rparr> exReqStray
       = ([], Returns [] (Some errUnservedTablet))"
proof -
  have g: "groups exEnv = exGroups" by (simp add: exEnv_def)
  have h: "HealthCheck exEnv = None" by (simp add: exEnv_def)
  have z: "addToSchemaMap (groups exEnv) Map.empty exReqStray 0 \<noteq> None"
    by (simp add: g exReqStray_map)
  have d: "set (rangeOrder \<lparr>rangeOrder = [0, 1], selects = []\<rparr>)
             = dom (addToSchemaMap (groups exEnv) Map.empty exReqStray)"
    by (auto simp: g exReqStray_map)
  show ?thesis
    using h z d GetSchemaOverNetwork_unrouted [OF h z d] by simp
qed

text \<open>That no lookup is started at all fails when the range yields another group
  before group 0: the map of the request has the keys 1 and 0, the range yields 1
  first, and the lookup task of group 1 is started before the call returns
  \<^verbatim>\<open>errUnservedTablet\<close>.\<close>

theorem GetSchemaOverNetwork_unrouted_counterexample:
  "addToSchemaMap (groups exEnv) Map.empty exReqStray 0 \<noteq> None
   \<and> distinct [1, 0 :: gid]
   \<and> set [1, 0] = dom (addToSchemaMap (groups exEnv) Map.empty exReqStray)
   \<and> GetSchemaOverNetwork exEnv \<lparr>rangeOrder = [1, 0], selects = []\<rparr> exReqStray
       = ([1], Returns [] (Some errUnservedTablet))"
proof -
  have g: "groups exEnv = exGroups" by (simp add: exEnv_def)
  have h: "HealthCheck exEnv = None" by (simp add: exEnv_def)
  show ?thesis
    by (auto simp: g h exReqStray_map GetSchemaOverNetwork_def)
qed

lemma getSchemaOverNetwork_result:
  "err (getSchemaOverNetwork e gid s) = None \<Longrightarrow>
   \<exists>res. getSchemaOverNetwork e gid s = \<lparr>result = Some res, err = None\<rparr>"
  by (simp add: getSchemaOverNetwork_def getSchema_def Let_def
      split: if_splits option.splits sum.splits)

lemma gather_error:
  "gather e m n sel acc = Returns nodes (Some er) \<Longrightarrow> nodes = []"
proof (induction n arbitrary: sel acc)
  case 0
  then show ?case by simp
next
  case (Suc n)
  show ?case
  proof (cases sel)
    case Nil
    with Suc.prems show ?thesis by simp
  next
    case (Cons x sel')
    show ?thesis
    proof (cases x)
      case (Done er')
      with Cons Suc.prems show ?thesis by simp
    next
      case (Deliver gid)
      with Cons Suc.prems Suc.IH show ?thesis
        by (auto simp: Let_def split: option.splits)
    qed
  qed
qed

lemma gather_complete:
  "gather e m n sel acc = Returns nodes None \<Longrightarrow>
   \<exists>ks rs. map Deliver ks = take n sel \<and> length ks = n
      \<and> list_all2 (\<lambda>k r. \<exists>s. m k = Some s
            \<and> getSchemaOverNetwork e k s = \<lparr>result = Some r, err = None\<rparr>) ks rs
      \<and> nodes = acc @ concat (map Schema rs)"
proof (induction n arbitrary: sel acc)
  case 0
  then show ?case by simp
next
  case (Suc n)
  show ?case
  proof (cases sel)
    case Nil
    with Suc.prems show ?thesis by simp
  next
    case (Cons x sel')
    show ?thesis
    proof (cases x)
      case (Done er')
      with Cons Suc.prems show ?thesis by simp
    next
      case (Deliver gid)
      with Cons Suc.prems obtain s where s: "m gid = Some s"
        by (auto split: option.splits)
      have step: "gather e m (Suc n) sel acc =
          (case err (getSchemaOverNetwork e gid s) of
             Some er \<Rightarrow> Returns [] (Some er)
           | None \<Rightarrow> (case result (getSchemaOverNetwork e gid s) of
                        None \<Rightarrow> Panics
                      | Some res \<Rightarrow> gather e m n sel' (acc @ Schema res)))"
        using Cons Deliver s by (simp add: Let_def)
      with Suc.prems have "err (getSchemaOverNetwork e gid s) = None"
        by (auto split: option.splits)
      from getSchemaOverNetwork_result [OF this] obtain res where
        r: "getSchemaOverNetwork e gid s = \<lparr>result = Some res, err = None\<rparr>" by blast
      with step Suc.prems have
        g: "gather e m n sel' (acc @ Schema res) = Returns nodes None"
        by simp
      from Suc.IH [OF g] obtain ks rs where
        k: "map Deliver ks = take n sel'" "length ks = n"
          "list_all2 (\<lambda>k r. \<exists>s. m k = Some s
              \<and> getSchemaOverNetwork e k s = \<lparr>result = Some r, err = None\<rparr>) ks rs"
          "nodes = (acc @ Schema res) @ concat (map Schema rs)"
        by blast
      show ?thesis
      proof (intro exI conjI)
        show "map Deliver (gid # ks) = take (Suc n) sel"
          using k(1) Cons Deliver by simp
        show "length (gid # ks) = Suc n" using k(2) by simp
        show "list_all2 (\<lambda>k r. \<exists>s. m k = Some s
              \<and> getSchemaOverNetwork e k s = \<lparr>result = Some r, err = None\<rparr>)
              (gid # ks) (res # rs)"
          using k(3) s r by simp
        show "nodes = acc @ concat (map Schema (res # rs))"
          using k(4) by simp
      qed
    qed
  qed
qed

lemma gather_returns:
  "n \<le> length sel \<Longrightarrow> (\<forall>gid. Deliver gid \<in> set sel \<longrightarrow> m gid \<noteq> None) \<Longrightarrow>
   \<exists>nodes eo. gather e m n sel acc = Returns nodes eo"
proof (induction n arbitrary: sel acc)
  case 0
  then show ?case by simp
next
  case (Suc n)
  then obtain x sel' where sel: "sel = x # sel'" by (cases sel) auto
  show ?case
  proof (cases x)
    case (Done er')
    with sel show ?thesis by simp
  next
    case (Deliver gid)
    with sel Suc.prems obtain s where s: "m gid = Some s" by auto
    show ?thesis
    proof (cases "err (getSchemaOverNetwork e gid s)")
      case (Some er)
      with sel Deliver s show ?thesis by (simp add: Let_def)
    next
      case None
      from getSchemaOverNetwork_result [OF None] obtain res where
        "getSchemaOverNetwork e gid s = \<lparr>result = Some res, err = None\<rparr>" by blast
      moreover have "\<exists>nodes eo. gather e m n sel' (acc @ Schema res) = Returns nodes eo"
        using Suc.prems sel by (intro Suc.IH) auto
      ultimately show ?thesis using sel Deliver s by (simp add: Let_def)
    qed
  qed
qed

lemma finite_dom_addToSchemaMap:
  "finite (dom (addToSchemaMap g Map.empty schema))"
proof (cases "Predicates schema = []")
  case True
  have "dom (addToSchemaMap g Map.empty schema) \<subseteq> set (KnownGroups g)"
    by (auto simp: addToSchemaMap_all [OF True] split: if_splits)
  then show ?thesis by (rule finite_subset) simp
next
  case False
  have "dom (addToSchemaMap g Map.empty schema) \<subseteq> BelongsTo g ` set (Predicates schema)"
    by (auto simp: addToSchemaMap_named [OF False] split: if_splits)
  then show ?thesis by (rule finite_subset) simp
qed

text \<open>Claim C2. Take a schedule in which each iteration of the aggregation loop has
  something to pick, every delivery comes from the task of a map entry, and no
  task delivers twice. Then \<^verbatim>\<open>GetSchemaOverNetwork\<close> returns, and it returns
  either an error with no node, or no error with the concatenation of the results
  of all groups of the map, each group once and each without error.\<close>

theorem GetSchemaOverNetwork_all_or_error:
  assumes "card (dom (addToSchemaMap (groups e) Map.empty schema)) \<le> length (selects sch)"
    and "\<forall>gid. Deliver gid \<in> set (selects sch) \<longrightarrow>
           gid \<in> dom (addToSchemaMap (groups e) Map.empty schema)"
    and "distinct (selects sch)"
  shows "(\<exists>er. snd (GetSchemaOverNetwork e sch schema) = Returns [] (Some er))
       \<or> (\<exists>ks rs. snd (GetSchemaOverNetwork e sch schema) = Returns (concat (map Schema rs)) None
            \<and> distinct ks \<and> set ks = dom (addToSchemaMap (groups e) Map.empty schema)
            \<and> list_all2 (\<lambda>k r. \<exists>s. addToSchemaMap (groups e) Map.empty schema k = Some s
                  \<and> getSchemaOverNetwork e k s = \<lparr>result = Some r, err = None\<rparr>) ks rs)"
proof -
  let ?m = "addToSchemaMap (groups e) Map.empty schema"
  let ?out = "snd (GetSchemaOverNetwork e sch schema)"
  let ?ok = "\<lambda>k r. \<exists>s. ?m k = Some s
                  \<and> getSchemaOverNetwork e k s = \<lparr>result = Some r, err = None\<rparr>"
  have "(\<exists>er. ?out = Returns [] (Some er))
        \<or> ?out = gather e ?m (card (dom ?m)) (selects sch) []"
  proof (cases "HealthCheck e")
    case (Some er)
    then show ?thesis by (simp add: GetSchemaOverNetwork_def)
  next
    case None
    obtain started unrouted where d: "dispatch (rangeOrder sch) [] = (started, unrouted)"
      by (cases "dispatch (rangeOrder sch) []")
    show ?thesis
      using None d by (cases unrouted) (simp_all add: GetSchemaOverNetwork_def Let_def)
  qed
  then consider (early) er where "?out = Returns [] (Some er)"
    | (loop) "?out = gather e ?m (card (dom ?m)) (selects sch) []"
    by blast
  then show ?thesis
  proof cases
    case early
    then show ?thesis by blast
  next
    case loop
    from assms(1,2) have "\<exists>nodes eo. gather e ?m (card (dom ?m)) (selects sch) [] = Returns nodes eo"
      by (intro gather_returns) auto
    then obtain nodes eo where ret: "?out = Returns nodes eo" using loop by auto
    show ?thesis
    proof (cases eo)
      case (Some er)
      with ret loop gather_error [of e ?m _ _ "[]" nodes er] show ?thesis by auto
    next
      case None
      with ret loop have "gather e ?m (card (dom ?m)) (selects sch) [] = Returns nodes None"
        by simp
      from gather_complete [OF this] obtain ks rs where
        k: "map Deliver ks = take (card (dom ?m)) (selects sch)" "length ks = card (dom ?m)"
           "list_all2 ?ok ks rs" "nodes = concat (map Schema rs)"
        by auto
      have "distinct (map Deliver ks)" using assms(3) k(1) by simp
      then have dk: "distinct ks" by (simp add: distinct_map)
      have sub: "set ks \<subseteq> dom ?m"
      proof
        fix x assume "x \<in> set ks"
        then obtain i where "i < length ks" "ks ! i = x" by (auto simp: in_set_conv_nth)
        with k(3) show "x \<in> dom ?m" by (auto simp: list_all2_conv_all_nth)
      qed
      have "card (set ks) = card (dom ?m)" using dk k(2) by (simp add: distinct_card)
      with sub have "set ks = dom ?m"
        by (intro card_subset_eq finite_dom_addToSchemaMap)
      with dk k(3,4) ret None show ?thesis by blast
    qed
  qed
qed


lemma exReq_run:
  "GetSchemaOverNetwork exEnv \<lparr>rangeOrder = [2, 1], selects = [Deliver 2, Deliver 1]\<rparr> exReq
    = ([2, 1], Returns
         [zeroSchemaNode\<lparr>Predicate := ''age'', Type := ''int''\<rparr>,
          zeroSchemaNode\<lparr>Predicate := ''name'', Type := ''string'', Index := True\<rparr>] None)"
proof -
  have g: "groups exEnv = exGroups" by (simp add: exEnv_def)
  have h: "HealthCheck exEnv = None" by (simp add: exEnv_def)
  have t2: "getSchemaOverNetwork exEnv 2
              \<lparr>GroupId = 2, Predicates = [''age''], Fields = [''type'', ''index'']\<rparr>
            = \<lparr>result = Some \<lparr>Schema = [zeroSchemaNode\<lparr>Predicate := ''age'', Type := ''int''\<rparr>]\<rparr>,
               err = None\<rparr>"
    by (simp add: getSchemaOverNetwork_def exEnv_def exGroups_def)
  have t1: "getSchemaOverNetwork exEnv 1
              \<lparr>GroupId = 1, Predicates = [''name''], Fields = [''type'', ''index'']\<rparr>
            = \<lparr>result = Some \<lparr>Schema =
                 [zeroSchemaNode\<lparr>Predicate := ''name'', Type := ''string'', Index := True\<rparr>]\<rparr>,
               err = None\<rparr>"
    by (simp add: getSchemaOverNetwork_def getSchema_def populateSchema_def setField_def
        exEnv_def exGroups_def exState_def)
  show ?thesis
    by (simp add: GetSchemaOverNetwork_def g h exReq_map t1 t2 numeral_2_eq_2)
qed


lemma exReq_run_cancelled:
  "GetSchemaOverNetwork exEnv
      \<lparr>rangeOrder = [2, 1], selects = [Deliver 2, Done (ErrContext ''context canceled'')]\<rparr> exReq
    = ([2, 1], Returns [] (Some (ErrContext ''context canceled'')))"
proof -
  have g: "groups exEnv = exGroups" by (simp add: exEnv_def)
  have h: "HealthCheck exEnv = None" by (simp add: exEnv_def)
  have t2: "getSchemaOverNetwork exEnv 2
              \<lparr>GroupId = 2, Predicates = [''age''], Fields = [''type'', ''index'']\<rparr>
            = \<lparr>result = Some \<lparr>Schema = [zeroSchemaNode\<lparr>Predicate := ''age'', Type := ''int''\<rparr>]\<rparr>,
               err = None\<rparr>"
    by (simp add: getSchemaOverNetwork_def exEnv_def exGroups_def)
  show ?thesis
    by (simp add: GetSchemaOverNetwork_def g h exReq_map t2 numeral_2_eq_2)
qed

text \<open>A run of the two-group request that succeeds, and one that is cancelled after
  the first result: the node already received is not returned.\<close>

theorem GetSchemaOverNetwork_all_or_error_witness:
  "card (dom (addToSchemaMap (groups exEnv) Map.empty exReq)) \<le> length [Deliver 2, Deliver 1]
   \<and> distinct [Deliver 2, Deliver 1]
   \<and> dom (addToSchemaMap (groups exEnv) Map.empty exReq) = {1, 2}
   \<and> snd (GetSchemaOverNetwork exEnv
            \<lparr>rangeOrder = [2, 1], selects = [Deliver 2, Deliver 1]\<rparr> exReq)
       = Returns
           [zeroSchemaNode\<lparr>Predicate := ''age'', Type := ''int''\<rparr>,
            zeroSchemaNode\<lparr>Predicate := ''name'', Type := ''string'', Index := True\<rparr>] None
   \<and> snd (GetSchemaOverNetwork exEnv
            \<lparr>rangeOrder = [2, 1],
             selects = [Deliver 2, Done (ErrContext ''context canceled'')]\<rparr> exReq)
       = Returns [] (Some (ErrContext ''context canceled''))"
proof -
  let ?sch = "\<lparr>rangeOrder = [2, 1], selects = [Deliver 2, Deliver 1]\<rparr>"
  have g: "groups exEnv = exGroups" by (simp add: exEnv_def)
  have d: "dom (addToSchemaMap (groups exEnv) Map.empty exReq) = {1, 2}"
    by (auto simp: g exReq_map)
  have a: "card (dom (addToSchemaMap (groups exEnv) Map.empty exReq)) \<le> length (selects ?sch)"
    by (simp add: d)
  have b: "\<forall>gid. Deliver gid \<in> set (selects ?sch) \<longrightarrow>
             gid \<in> dom (addToSchemaMap (groups exEnv) Map.empty exReq)"
    by (auto simp: d)
  have c: "distinct (selects ?sch)" by simp
  show ?thesis
    using a c d GetSchemaOverNetwork_all_or_error [OF a b c]
    by (simp add: exReq_run exReq_run_cancelled)
qed

end
